theory Spec2Isabelle
  imports Main "HOL-Library.List_Lexorder" "HOL-Library.Char_ord"
begin

section \<open>The sequence cache of QtAliceVision (src/SequenceCache.cpp)\<close>

text \<open>
  A shallow embedding of the class \<open>SequenceCache\<close> and of its worker
  \<open>PrefetchingIORunnable\<close>. Member variables become the fields of a record, every
  method becomes a function from the state before the call to the state after it, and a
  C++ exception that leaves a method becomes a value of the result.

  Paths are \<open>std::string\<close>s, compared byte by byte, a proper prefix first: the order of
  \<open>char list\<close> given by \<open>List_Lexorder\<close> and \<open>Char_ord\<close>.

  Frame numbers and extents have the type \<open>int\<close> in the source, 32 bits wide. The model
  holds them in the integers and wraps the result of every operation of \<open>getRegion\<close>
  into the range of \<open>int\<close>, as the compiled code does.
\<close>

subsection \<open>Data\<close>

type_synonym QSize = "int \<times> int"
type_synonym QVariantMap = "string \<rightharpoonup> string"
type_synonym Region = "int \<times> int"

text \<open>\<open>struct FrameData\<close>: the fields the source reads and writes.\<close>

record FrameData =
  path :: string
  dim :: QSize
  metadata :: QVariantMap

text \<open>
  \<open>struct Response\<close>: an image handle that may be null, dimensions and metadata. The two
  last fields are named \<open>dim\<close> and \<open>metadata\<close> in the source; they carry a prefix here
  because a record of this theory already has fields of these names.
\<close>

record 'img Response =
  img :: "'img option"
  resp_dim :: QSize
  resp_metadata :: QVariantMap

text \<open>
  A default-constructed \<open>Response\<close> (line 78): a null handle, the invalid \<open>QSize()\<close>,
  which Qt represents as \<open>(-1, -1)\<close>, and an empty map.
\<close>

definition emptyResponse :: "'img Response" where
  "emptyResponse = \<lparr>img = None, resp_dim = (-1, -1), resp_metadata = Map.empty\<rparr>"

text \<open>What a throwing library call raises (\<open>std::exception\<close> with its message).\<close>

datatype exception = Exception string

text \<open>
  The members of \<open>SequenceCache\<close>. The image cache belongs to the AliceVision library,
  so its state is a type parameter and its operations are parameters of the methods that
  call them. Two more fields record what the object does to its environment: \<open>started\<close>
  lists the batches of the runnables handed to the thread pool (line 103), oldest first,
  and \<open>requestHandled\<close> counts the emissions of the signal of that name (line 133).
\<close>

record 'c SequenceCache =
  sequence :: "FrameData list"
  cache :: 'c
  extentPrefetch :: int
  regionPrefetch :: Region
  nextRegionPrefetch :: Region
  extentSafe :: int
  regionSafe :: Region
  nextRegionSafe :: Region
  loading :: bool
  started :: "FrameData list list"
  requestHandled :: nat

text \<open>
  A region \<open>(first, second)\<close> is read as the closed interval of the frames between its
  two ends, as the tests of lines 88 and 107 do.
\<close>

definition region_set :: "Region \<Rightarrow> int set" where
  "region_set r = {fst r .. snd r}"

definition in_region :: "int \<Rightarrow> Region \<Rightarrow> bool" where
  "in_region frame r \<longleftrightarrow> frame \<ge> fst r \<and> frame \<le> snd r"

subsection \<open>Construction (lines 11-20)\<close>

text \<open>
  The constructor receives the freshly allocated, empty image cache. The two pending
  regions are not assigned by the constructor; a \<open>std::pair\<close> of two \<open>int\<close>s member is
  value-initialised to \<open>(0, 0)\<close>.
\<close>

definition new_SequenceCache :: "'c \<Rightarrow> 'c SequenceCache" where
  "new_SequenceCache empty_cache =
     \<lparr>sequence = [],
      cache = empty_cache,
      extentPrefetch = 30,
      regionPrefetch = (0, 0),
      nextRegionPrefetch = (0, 0),
      extentSafe = 20,
      regionSafe = (0, 0),
      nextRegionSafe = (0, 0),
      loading = False,
      started = [],
      requestHandled = 0\<rparr>"

subsection \<open>getFrame (lines 136-146)\<close>

text \<open>The loop over the indices, from \<open>idx\<close> on: the first index whose path matches, or -1.\<close>

fun getFrame_loop :: "FrameData list \<Rightarrow> string \<Rightarrow> int \<Rightarrow> int" where
  "getFrame_loop [] p idx = -1"
| "getFrame_loop (d # ds) p idx = (if path d = p then idx else getFrame_loop ds p (idx + 1))"

definition getFrame :: "'c SequenceCache \<Rightarrow> string \<Rightarrow> int" where
  "getFrame s p = getFrame_loop (sequence s) p 0"

subsection \<open>getRegion (lines 148-165)\<close>

text \<open>
  The value that a 32-bit \<open>int\<close> holds after an operation whose exact result is \<open>x\<close>:
  \<open>x\<close> itself when it lies between \<open>- 2 ^ 31\<close> and \<open>2 ^ 31 - 1\<close>, and otherwise the
  value in that range that differs from \<open>x\<close> by a multiple of \<open>2 ^ 32\<close>.
\<close>

definition wrap_int :: "int \<Rightarrow> int" where
  "wrap_int x = (x + 2 ^ 31) mod 2 ^ 32 - 2 ^ 31"

definition int_add :: "int \<Rightarrow> int \<Rightarrow> int" where
  "int_add a b = wrap_int (a + b)"

definition int_sub :: "int \<Rightarrow> int \<Rightarrow> int" where
  "int_sub a b = wrap_int (a - b)"

definition int_mul :: "int \<Rightarrow> int \<Rightarrow> int" where
  "int_mul a b = wrap_int (a * b)"

text \<open>
  Line 158 compares the \<open>int\<close> \<open>end\<close> with the \<open>size_t\<close> \<open>_sequence.size()\<close>: the
  \<open>int\<close> is converted to the unsigned 64-bit type first, which sends a negative value
  \<open>x\<close> to \<open>x + 2 ^ 64\<close>.
\<close>

definition to_size_t :: "int \<Rightarrow> int" where
  "to_size_t x = (if x < 0 then x + 2 ^ 64 else x)"

text \<open>
  \<open>size\<close> is \<open>_sequence.size()\<close>, a \<open>size_t\<close>. Lines 156 and 161 cast it to \<open>int\<close>
  before they subtract; line 160 subtracts in \<open>size_t\<close>, modulo \<open>2 ^ 64\<close>, and converts
  the difference to \<open>int\<close> in the assignment.
\<close>

definition getRegion :: "'c SequenceCache \<Rightarrow> int \<Rightarrow> int \<Rightarrow> Region" where
  "getRegion s frame extent =
     (let size = int (length (sequence s));
          start = int_sub frame extent;
          end' = int_add frame extent
      in if start < 0 then (0, min (int_sub (wrap_int size) 1) (int_mul 2 extent))
         else if to_size_t end' \<ge> size
           then (max 0 (int_sub (int_sub (wrap_int size) 1) (int_mul 2 extent)),
                 wrap_int ((size - 1) mod 2 ^ 64))
         else (start, end'))"

subsection \<open>setSequence (lines 28-58)\<close>

text \<open>
  \<open>aliceVision::image::readImageMetadata\<close> is a library function: it is the parameter
  \<open>probe\<close>, which yields the width, the height and the list of the metadata items
  (name and value) of a path, or throws. That it reports a file it cannot read by
  throwing is what the other reader of this repository relies on
  (\<open>FloatImageIORunnable::run\<close> wraps the call in \<open>try\<close> and \<open>catch\<close>).
\<close>

type_synonym probe = "string \<Rightarrow> exception + (int \<times> int \<times> (string \<times> string) list)"

text \<open>Lines 46-49: the items are stored one by one, a later item replacing an earlier
  one of the same name.\<close>

definition copy_metadata :: "(string \<times> string) list \<Rightarrow> QVariantMap" where
  "copy_metadata items = foldl (\<lambda>m (k, v). m(k \<mapsto> v)) Map.empty items"

text \<open>
  The loop of lines 32-52 over the paths still to be read; \<open>acc\<close> is \<open>_sequence\<close> so
  far. \<open>setSequence\<close> has no handler, so an exception of the probe ends the loop and
  leaves the method, with the descriptors appended so far still in \<open>_sequence\<close>.
\<close>

fun setSequence_loop :: "probe \<Rightarrow> string list \<Rightarrow> FrameData list \<Rightarrow> exception option \<times> FrameData list" where
  "setSequence_loop probe [] acc = (None, acc)"
| "setSequence_loop probe (p # ps) acc =
     (case probe p of
        Inl e \<Rightarrow> (Some e, acc)
      | Inr (width, height, items) \<Rightarrow>
          setSequence_loop probe ps
            (acc @ [\<lparr>path = p, dim = (width, height), metadata = copy_metadata items\<rparr>]))"

text \<open>
  The result is the exception that left the method, if any, and the state after it.
  \<open>std::sort\<close> with the comparison of the paths is \<open>sort_key path\<close>: descriptors of
  equal paths, whose relative order \<open>std::sort\<close> does not fix, are equal, because the
  probe decides every other field.
\<close>

definition setSequence :: "probe \<Rightarrow> string list \<Rightarrow> 'c SequenceCache \<Rightarrow> exception option \<times> 'c SequenceCache" where
  "setSequence probe paths s =
     (case setSequence_loop probe paths [] of
        (Some e, acc) \<Rightarrow> (Some e, s\<lparr>sequence := acc\<rparr>)
      | (None, acc) \<Rightarrow> (None, s\<lparr>sequence := sort_key path acc\<rparr>))"

subsection \<open>getCachedFrames (lines 60-73)\<close>

text \<open>\<open>contains\<close> is the membership test of the image cache.\<close>

fun getCachedFrames_loop :: "('c \<Rightarrow> string \<Rightarrow> nat \<Rightarrow> bool) \<Rightarrow> 'c \<Rightarrow> FrameData list \<Rightarrow> int \<Rightarrow> int list" where
  "getCachedFrames_loop contains c [] frame = []"
| "getCachedFrames_loop contains c (d # ds) frame =
     (if contains c (path d) 1 then frame # getCachedFrames_loop contains c ds (frame + 1)
      else getCachedFrames_loop contains c ds (frame + 1))"

definition getCachedFrames :: "('c \<Rightarrow> string \<Rightarrow> nat \<Rightarrow> bool) \<Rightarrow> 'c SequenceCache \<Rightarrow> int list" where
  "getCachedFrames contains s = getCachedFrames_loop contains (cache s) (sequence s) 0"

subsection \<open>request (lines 75-123)\<close>

text \<open>
  Lines 96-98 build the batch with the range constructor of \<open>std::vector\<close> from the
  iterators \<open>begin + first\<close> and \<open>begin + second\<close>: the elements from the first
  iterator up to, and without, the second one. The source requires
  \<open>0 \<le> first \<le> second \<le> size\<close> (lemma \<open>request_range_valid\<close>).
\<close>

definition vector_range :: "'a list \<Rightarrow> int \<Rightarrow> int \<Rightarrow> 'a list" where
  "vector_range v first second = drop (nat first) (take (nat second) v)"

text \<open>
  \<open>get\<close> is \<open>ImageCache::get\<close>: it returns the image of a path at a resolution level,
  or throws, and may change the cache. \<open>request\<close> returns the response, or the exception
  that left it, and the state after the call.
\<close>

type_synonym ('c, 'img) cache_get = "'c \<Rightarrow> string \<Rightarrow> nat \<Rightarrow> (exception + 'img) \<times> 'c"

text \<open>
  Lines 90-103, the body of the first conditional of \<open>request\<close>: the flag is set, the
  two pending regions are computed, the batch is gathered and its runnable is handed
  to the thread pool.
\<close>

definition start_prefetch :: "int \<Rightarrow> 'c SequenceCache \<Rightarrow> 'c SequenceCache" where
  "start_prefetch frame s =
     (let next_prefetch = getRegion s frame (extentPrefetch s);
          next_safe = getRegion s frame (extentSafe s);
          toLoad = vector_range (sequence s) (fst next_prefetch) (snd next_prefetch)
      in s\<lparr>loading := True,
           nextRegionPrefetch := next_prefetch,
           nextRegionSafe := next_safe,
           started := started s @ [toLoad]\<rparr>)"

definition request :: "('c, 'img) cache_get \<Rightarrow> string \<Rightarrow> 'c SequenceCache \<Rightarrow> (exception + 'img Response) \<times> 'c SequenceCache" where
  "request get p s =
     (let frame = getFrame s p
      in if frame < 0 then (Inr emptyResponse, s)
         else
           let s1 = (if (frame < fst (regionSafe s) \<or> frame > snd (regionSafe s)) \<and> \<not> loading s
                     then start_prefetch frame s else s)
           in if frame \<ge> fst (regionPrefetch s1) \<and> frame \<le> snd (regionPrefetch s1)
              then
                let data = sequence s1 ! nat frame
                in case get (cache s1) (path data) 1 of
                     (Inl e, c) \<Rightarrow> (Inl e, s1\<lparr>cache := c\<rparr>)
                   | (Inr im, c) \<Rightarrow>
                       (Inr \<lparr>img = Some im, resp_dim = dim data, resp_metadata = metadata data\<rparr>,
                        s1\<lparr>cache := c\<rparr>)
              else (Inr emptyResponse, s1))"

text \<open>A run of calls of \<open>request\<close>, whatever each of them returns or throws.\<close>

fun requests :: "('c, 'img) cache_get \<Rightarrow> string list \<Rightarrow> 'c SequenceCache \<Rightarrow> 'c SequenceCache" where
  "requests get [] s = s"
| "requests get (p # ps) s = requests get ps (snd (request get p s))"

subsection \<open>onResultReady (lines 125-134)\<close>

definition onResultReady :: "'c SequenceCache \<Rightarrow> 'c SequenceCache" where
  "onResultReady s =
     s\<lparr>loading := False,
       regionPrefetch := nextRegionPrefetch s,
       regionSafe := nextRegionSafe s,
       requestHandled := requestHandled s + 1\<rparr>"

subsection \<open>PrefetchingIORunnable::run (lines 175-186)\<close>

text \<open>
  The worker asks the cache for every descriptor of its batch, in order. The result is
  the exception that ended the run, if any, and the cache after it; \<open>resultReady\<close> is
  emitted when the result is \<open>None\<close>.
\<close>

fun run :: "('c, 'img) cache_get \<Rightarrow> FrameData list \<Rightarrow> 'c \<Rightarrow> exception option \<times> 'c" where
  "run get [] c = (None, c)"
| "run get (d # ds) c =
     (case get c (path d) 1 of
        (Inl e, c') \<Rightarrow> (Some e, c')
      | (Inr im, c') \<Rightarrow> run get ds c')"

text \<open>
  The end of a load: while the object is loading, the batch in flight is the last one
  handed to the thread pool; it runs on the cache of the object, and when it has run
  to its end its \<open>resultReady\<close> reaches the slot \<open>onResultReady\<close>.
\<close>

definition finish_load :: "('c, 'img) cache_get \<Rightarrow> 'c SequenceCache \<Rightarrow> 'c SequenceCache" where
  "finish_load get s =
     (if loading s \<and> started s \<noteq> []
      then (case run get (last (started s)) (cache s) of
              (Some e, c) \<Rightarrow> s\<lparr>cache := c\<rparr>
            | (None, c) \<Rightarrow> onResultReady (s\<lparr>cache := c\<rparr>))
      else s)"

subsection \<open>An image cache to run the model on\<close>

text \<open>
  An instance of the parameters \<open>get\<close> and \<open>contains\<close>, to evaluate the model on concrete
  inputs. It follows what the specification says of the Bounded Pixel Cache
  (\<open>aliceVision::image::ImageCache\<close>, a class of the AliceVision library): a store keyed
  by path and resolution level whose \<open>get\<close> pulls through, so that a miss decodes the
  image and inserts it and a hit changes nothing. This instance never evicts and its
  decoder never fails; an image is named by its key.
\<close>

type_synonym ImageCache = "(string \<times> nat) list"

definition cache_contains :: "ImageCache \<Rightarrow> string \<Rightarrow> nat \<Rightarrow> bool" where
  "cache_contains c p level \<longleftrightarrow> (p, level) \<in> set c"

definition cache_get :: "(ImageCache, string \<times> nat) cache_get" where
  "cache_get c p level =
     (Inr (p, level), if (p, level) \<in> set c then c else c @ [(p, level)])"

text \<open>A probe that reads every file: 640 by 480, no metadata.\<close>

definition probe_ok :: probe where
  "probe_ok p = Inr (640, 480, [])"

text \<open>A probe that cannot read the file \<open>''b''\<close>.\<close>

definition probe_b_fails :: probe where
  "probe_b_fails p = (if p = ''b'' then Inl (Exception ''cannot open'') else Inr (640, 480, []))"

text \<open>
  Three states to evaluate the model on: \<open>fresh\<close>, the object as constructed;
  \<open>abc\<close>, after \<open>setSequence\<close> of the paths c, a and b; \<open>abc_loading\<close>, after the
  request of the path b that follows.
\<close>

definition fresh :: "ImageCache SequenceCache" where
  "fresh = new_SequenceCache []"

definition abc :: "ImageCache SequenceCache" where
  "abc = snd (setSequence probe_ok [''c'', ''a'', ''b''] fresh)"

definition abc_loading :: "ImageCache SequenceCache" where
  "abc_loading = snd (request cache_get ''b'' abc)"

text \<open>The state \<open>abc\<close> with the extents 1 and 0 in place of 30 and 20.\<close>

definition abc_narrow :: "ImageCache SequenceCache" where
  "abc_narrow = abc\<lparr>extentPrefetch := 1, extentSafe := 0\<rparr>"

subsection \<open>Well-formed descriptors\<close>

text \<open>
  A descriptor is \<open>probed\<close> when its dimensions and metadata are the ones the probe
  returns for its path: it was built by lines 35-49 from a probe that succeeded.
\<close>

definition probed :: "probe \<Rightarrow> FrameData \<Rightarrow> bool" where
  "probed probe d =
     (case probe (path d) of
        Inl e \<Rightarrow> False
      | Inr (width, height, items) \<Rightarrow> dim d = (width, height) \<and> metadata d = copy_metadata items)"

section \<open>Auxiliary facts\<close>

subsection \<open>The lookup of a path\<close>

lemma getFrame_loop_absent:
  "p \<notin> path ` set ds \<Longrightarrow> getFrame_loop ds p idx = -1"
  by (induction ds arbitrary: idx) auto

lemma getFrame_loop_range:
  "0 \<le> idx \<Longrightarrow> 0 \<le> getFrame_loop ds p idx \<Longrightarrow>
     idx \<le> getFrame_loop ds p idx \<and> getFrame_loop ds p idx < idx + int (length ds)"
proof (induction ds arbitrary: idx)
  case Nil
  then show ?case by simp
next
  case (Cons d ds)
  show ?case
  proof (cases "path d = p")
    case True
    then show ?thesis by simp
  next
    case False
    with Cons.prems have "0 \<le> getFrame_loop ds p (idx + 1)" by simp
    with Cons.IH [of "idx + 1"] Cons.prems False show ?thesis by simp
  qed
qed

lemma getFrame_loop_nth:
  "distinct (map path ds) \<Longrightarrow> i < length ds \<Longrightarrow>
     getFrame_loop ds (path (ds ! i)) idx = idx + int i"
proof (induction ds arbitrary: i idx)
  case Nil
  then show ?case by simp
next
  case (Cons d ds)
  show ?case
  proof (cases i)
    case 0
    then show ?thesis by simp
  next
    case (Suc j)
    with Cons.prems have j: "j < length ds" and "distinct (map path ds)" by simp_all
    moreover from j Cons.prems have "path d \<noteq> path (ds ! j)" by auto
    ultimately show ?thesis using Cons.IH [of j "idx + 1"] Suc by simp
  qed
qed

lemma getFrame_range:
  "0 \<le> getFrame s p \<Longrightarrow> getFrame s p < int (length (sequence s))"
  using getFrame_loop_range [of 0 "sequence s" p] by (simp add: getFrame_def)

lemma getFrame_image:
  assumes "\<forall>i < length ds. getFrame s (path (sequence s ! i)) = int i"
    and "sequence s = ds"
  shows "getFrame s ` set (map path ds) = {0 ..< int (length ds)}"
proof -
  have "getFrame s ` set (map path ds) = (\<lambda>i. getFrame s (path (ds ! i))) ` {0 ..< length ds}"
  proof -
    have "set ds = (!) ds ` {0 ..< length ds}" by (simp add: nth_image)
    then have "path ` set ds = (\<lambda>i. path (ds ! i)) ` {0 ..< length ds}"
      by (simp only: image_image)
    then show ?thesis by (simp add: image_image)
  qed
  also have "\<dots> = int ` {0 ..< length ds}"
    using assms by auto
  finally show ?thesis by (simp add: image_int_atLeastLessThan)
qed

subsection \<open>Building the sequence\<close>

lemma setSequence_loop_paths:
  "map path (snd (setSequence_loop probe ps acc))
     = map path acc @ takeWhile (\<lambda>p. \<not> isl (probe p)) ps"
  by (induction ps arbitrary: acc) (auto split: sum.splits)

lemma setSequence_loop_result:
  "fst (setSequence_loop probe ps acc) = None \<longleftrightarrow> (\<forall>p \<in> set ps. \<not> isl (probe p))"
  by (induction ps arbitrary: acc) (auto split: sum.splits)

lemma setSequence_loop_probed:
  "\<forall>d \<in> set acc. probed probe d \<Longrightarrow>
     \<forall>d \<in> set (snd (setSequence_loop probe ps acc)). probed probe d"
proof (induction ps arbitrary: acc)
  case Nil
  then show ?case by simp
next
  case (Cons p ps)
  show ?case
  proof (cases "probe p")
    case (Inl e)
    with Cons.prems show ?thesis by simp
  next
    case (Inr r)
    obtain w h items where r: "r = (w, h, items)" by (cases r)
    let ?d = "\<lparr>path = p, dim = (w, h), metadata = copy_metadata items\<rparr>"
    have "probed probe ?d" by (simp add: probed_def Inr r)
    with Cons.prems have "\<forall>d \<in> set (acc @ [?d]). probed probe d" by simp
    from Cons.IH [OF this] show ?thesis by (simp add: Inr r)
  qed
qed

lemma distinct_map_sort_key:
  "distinct (map f (sort_key f xs)) = distinct (map f xs)"
  by (induction xs) (simp_all add: distinct_insort_key)

lemma sequence_setSequence:
  "sequence (snd (setSequence probe paths s))
     = (if fst (setSequence_loop probe paths []) = None
        then sort_key path (snd (setSequence_loop probe paths []))
        else snd (setSequence_loop probe paths []))"
  by (cases "setSequence_loop probe paths []") (auto simp: setSequence_def split: option.splits)

lemma fst_setSequence:
  "fst (setSequence probe paths s) = fst (setSequence_loop probe paths [])"
  by (cases "setSequence_loop probe paths []") (auto simp: setSequence_def split: option.splits)

lemma setSequence_only_sequence:
  "snd (setSequence probe paths s) = s\<lparr>sequence := sequence (snd (setSequence probe paths s))\<rparr>"
  by (cases "setSequence_loop probe paths []") (auto simp: setSequence_def split: option.splits)

lemma setSequence_sorted_index:
  assumes d: "distinct paths" and ok: "\<forall>p \<in> set paths. \<not> isl (probe p)"
  shows "fst (setSequence probe paths s) = None"
    and "length (sequence (snd (setSequence probe paths s))) = length paths"
    and "sorted_wrt (<) (map path (sequence (snd (setSequence probe paths s))))"
    and "set (map path (sequence (snd (setSequence probe paths s)))) = set paths"
    and "\<forall>i < length paths.
           getFrame (snd (setSequence probe paths s))
             (path (sequence (snd (setSequence probe paths s)) ! i)) = int i"
proof -
  let ?acc = "snd (setSequence_loop probe paths [])"
  let ?s = "snd (setSequence probe paths s)"
  from ok have none: "fst (setSequence_loop probe paths []) = None"
    by (simp add: setSequence_loop_result)
  from ok have "takeWhile (\<lambda>p. \<not> isl (probe p)) paths = paths"
    by (simp add: takeWhile_eq_all_conv)
  then have acc: "map path ?acc = paths"
    using setSequence_loop_paths [of probe paths "[]"] by simp
  have seq: "sequence ?s = sort_key path ?acc"
    by (simp add: sequence_setSequence none)
  show "fst (setSequence probe paths s) = None"
    by (simp add: fst_setSequence none)
  from acc have "length ?acc = length paths" by (metis length_map)
  then show len: "length (sequence ?s) = length paths" by (simp add: seq)
  have dist: "distinct (map path (sequence ?s))"
    by (simp add: seq distinct_map_sort_key acc d)
  then show "sorted_wrt (<) (map path (sequence ?s))"
    by (simp add: strict_sorted_iff seq)
  have "set (map path (sort_key path ?acc)) = set (map path ?acc)" by simp
  then show "set (map path (sequence ?s)) = set paths" by (simp only: seq acc)
  show "\<forall>i < length paths. getFrame ?s (path (sequence ?s ! i)) = int i"
    using getFrame_loop_nth [OF dist, of _ 0] len by (simp add: getFrame_def)
qed

subsection \<open>The window planner\<close>

lemmas getRegion_eval =
  getRegion_def int_add_def int_sub_def int_mul_def wrap_int_def to_size_t_def

lemma wrap_int_id:
  "- (2 ^ 31) \<le> x \<Longrightarrow> x < 2 ^ 31 \<Longrightarrow> wrap_int x = x"
  by (simp add: wrap_int_def)

text \<open>
  Where no operation leaves the range of \<open>int\<close>, \<open>getRegion\<close> is the window of the
  specification, computed in the integers.
\<close>

lemma getRegion_no_wrap:
  assumes "0 \<le> frame" "frame < int (length (sequence s))"
    and "int (length (sequence s)) + 2 * \<bar>extent\<bar> < 2 ^ 31"
  shows "getRegion s frame extent =
           (if frame - extent < 0
            then (0, min (int (length (sequence s)) - 1) (2 * extent))
            else if to_size_t (frame + extent) \<ge> int (length (sequence s))
            then (max 0 (int (length (sequence s)) - 1 - 2 * extent), int (length (sequence s)) - 1)
            else (frame - extent, frame + extent))"
proof -
  let ?n = "int (length (sequence s))"
  from assms have "wrap_int (frame - extent) = frame - extent"
    and "wrap_int (frame + extent) = frame + extent"
    and "wrap_int (2 * extent) = 2 * extent"
    and "wrap_int ?n = ?n"
    and "wrap_int (?n - 1) = ?n - 1"
    and "wrap_int (?n - 1 - 2 * extent) = ?n - 1 - 2 * extent"
    by (simp_all add: wrap_int_id)
  moreover have "(?n - 1) mod 2 ^ 64 = ?n - 1"
  proof (rule mod_pos_pos_trivial)
    from assms show "0 \<le> ?n - 1" by linarith
    from assms show "?n - 1 < 2 ^ 64" by simp
  qed
  ultimately show ?thesis
    by (simp add: getRegion_def int_add_def int_sub_def int_mul_def Let_def)
qed

lemma getRegion_inside:
  assumes "0 \<le> frame" "frame < int (length (sequence s))" "0 \<le> extent"
    and "int (length (sequence s)) + 2 * extent < 2 ^ 31"
  shows "0 \<le> fst (getRegion s frame extent)"
    and "fst (getRegion s frame extent) \<le> frame"
    and "frame \<le> snd (getRegion s frame extent)"
    and "snd (getRegion s frame extent) < int (length (sequence s))"
  using assms by (auto simp: getRegion_no_wrap to_size_t_def)

lemma getRegion_width:
  assumes "0 \<le> frame" "frame < int (length (sequence s))" "0 \<le> extent"
    and "int (length (sequence s)) + 2 * extent < 2 ^ 31"
  shows "snd (getRegion s frame extent) - fst (getRegion s frame extent) + 1
           = min (2 * extent + 1) (int (length (sequence s)))"
  using assms by (auto simp: getRegion_no_wrap to_size_t_def)

lemma getRegion_mono:
  assumes "0 \<le> frame" "frame < int (length (sequence s))" "e1 \<le> e2"
    and "int (length (sequence s)) + 2 * \<bar>e1\<bar> < 2 ^ 31"
    and "int (length (sequence s)) + 2 * \<bar>e2\<bar> < 2 ^ 31"
  shows "region_set (getRegion s frame e1) \<subseteq> region_set (getRegion s frame e2)"
  using assms(1-3)
  by (simp only: getRegion_no_wrap [OF assms(1,2,4)] getRegion_no_wrap [OF assms(1,2,5)])
     (auto simp: region_set_def to_size_t_def)

lemma getRegion_scenario:
  assumes "length (sequence s) = 100"
  shows "getRegion s 50 30 = (20, 80)" and "getRegion s 50 20 = (30, 70)"
    and "getRegion s 5 30 = (0, 60)"
    and "length (vector_range (sequence s) 20 80) = 60"
  using assms
  by (simp_all add: getRegion_eval vector_range_def)

subsection \<open>The coordinator\<close>

lemma request_unknown:
  "getFrame s p < 0 \<Longrightarrow> request get p s = (Inr emptyResponse, s)"
  by (simp add: request_def)

lemma request_while_loading:
  "loading s \<Longrightarrow> \<exists>c. snd (request get p s) = s\<lparr>cache := c\<rparr>"
  by (auto simp: request_def Let_def split: prod.splits sum.splits intro: exI [of _ "cache s"])

lemma requests_while_loading:
  "loading s \<Longrightarrow> \<exists>c. requests get ps s = s\<lparr>cache := c\<rparr>"
proof (induction ps arbitrary: s)
  case Nil
  then show ?case by (auto intro: exI [of _ "cache s"])
next
  case (Cons p ps)
  from Cons.prems obtain c where c: "snd (request get p s) = s\<lparr>cache := c\<rparr>"
    using request_while_loading by blast
  from Cons.prems have "loading (s\<lparr>cache := c\<rparr>)" by simp
  from Cons.IH [OF this] obtain c' where "requests get ps (s\<lparr>cache := c\<rparr>) = s\<lparr>cache := c, cache := c'\<rparr>"
    by blast
  with c have "requests get (p # ps) s = s\<lparr>cache := c'\<rparr>" by simp
  then show ?case by blast
qed

lemma request_trigger:
  assumes "0 \<le> getFrame s p"
    and "getFrame s p < fst (regionSafe s) \<or> getFrame s p > snd (regionSafe s)"
    and "\<not> loading s"
  shows "snd (request get p s)
           = (start_prefetch (getFrame s p) s)\<lparr>cache := cache (snd (request get p s))\<rparr>"
  using assms by (auto simp: request_def Let_def start_prefetch_def split: prod.splits sum.splits)

lemma request_keeps_extents:
  "extentSafe (snd (request get p s)) = extentSafe s
   \<and> extentPrefetch (snd (request get p s)) = extentPrefetch s
   \<and> sequence (snd (request get p s)) = sequence s"
  by (auto simp: request_def Let_def start_prefetch_def split: prod.splits sum.splits)

lemma request_nested:
  assumes "0 \<le> getFrame s p"
    and "getFrame s p < fst (regionSafe s) \<or> getFrame s p > snd (regionSafe s)"
    and "\<not> loading s"
    and "extentSafe s \<le> extentPrefetch s"
    and "int (length (sequence s)) + 2 * \<bar>extentSafe s\<bar> < 2 ^ 31"
    and "int (length (sequence s)) + 2 * \<bar>extentPrefetch s\<bar> < 2 ^ 31"
  shows "region_set (nextRegionSafe (snd (request get p s)))
           \<subseteq> region_set (nextRegionPrefetch (snd (request get p s)))"
proof -
  from request_trigger [OF assms(1-3)]
  obtain c where s1: "snd (request get p s) = (start_prefetch (getFrame s p) s)\<lparr>cache := c\<rparr>"
    by blast
  from assms(1) have "getFrame s p < int (length (sequence s))" by (rule getFrame_range)
  from getRegion_mono [OF assms(1) this assms(4-6)] show ?thesis
    by (simp add: s1 start_prefetch_def Let_def)
qed

lemma vector_range_frames:
  assumes "0 \<le> first" and "first \<le> second" and "second \<le> int (length v)"
  shows "vector_range v first second = map ((!) v) [nat first ..< nat second]"
proof -
  from assms have b: "nat second \<le> length v" by simp
  have "take (nat second) v = take (nat second) (map ((!) v) [0 ..< length v])"
    by (simp add: map_nth)
  also have "\<dots> = map ((!) v) [0 ..< nat second]"
    using b by (simp only: take_map) simp
  finally have "take (nat second) v = map ((!) v) [0 ..< nat second]" .
  then show ?thesis by (simp add: vector_range_def drop_map)
qed

lemma request_range_valid:
  assumes "0 \<le> frame" and "frame < int (length (sequence s))" and "0 \<le> extentPrefetch s"
    and "int (length (sequence s)) + 2 * extentPrefetch s < 2 ^ 31"
  shows "0 \<le> fst (nextRegionPrefetch (start_prefetch frame s))"
    and "fst (nextRegionPrefetch (start_prefetch frame s)) \<le> snd (nextRegionPrefetch (start_prefetch frame s))"
    and "snd (nextRegionPrefetch (start_prefetch frame s)) < int (length (sequence s))"
  using getRegion_inside [OF assms] by (simp_all add: start_prefetch_def Let_def)

lemma request_batch_frames:
  assumes "0 \<le> frame" and "frame < int (length (sequence s))" and "0 \<le> extentPrefetch s"
    and "int (length (sequence s)) + 2 * extentPrefetch s < 2 ^ 31"
  shows "last (started (start_prefetch frame s))
           = map ((!) (sequence s))
               [nat (fst (nextRegionPrefetch (start_prefetch frame s)))
                  ..< nat (snd (nextRegionPrefetch (start_prefetch frame s)))]"
proof -
  let ?r = "getRegion s frame (extentPrefetch s)"
  from getRegion_inside [OF assms]
  have "0 \<le> fst ?r" and "fst ?r \<le> snd ?r" and "snd ?r \<le> int (length (sequence s))"
    by simp_all
  from vector_range_frames [OF this] show ?thesis
    by (simp add: start_prefetch_def Let_def)
qed

lemma request_batch_length:
  assumes "0 \<le> frame" and "frame < int (length (sequence s))" and "0 \<le> extentPrefetch s"
    and "int (length (sequence s)) + 2 * extentPrefetch s < 2 ^ 31"
  shows "int (length (last (started (start_prefetch frame s))))
           = snd (nextRegionPrefetch (start_prefetch frame s))
             - fst (nextRegionPrefetch (start_prefetch frame s))"
  using getRegion_inside [OF assms]
  by (simp add: start_prefetch_def Let_def vector_range_def)

subsection \<open>The example states\<close>

lemma sequence_abc:
  "sequence abc =
     [\<lparr>path = ''a'', dim = (640, 480), metadata = Map.empty\<rparr>,
      \<lparr>path = ''b'', dim = (640, 480), metadata = Map.empty\<rparr>,
      \<lparr>path = ''c'', dim = (640, 480), metadata = Map.empty\<rparr>]"
  by (simp add: abc_def fresh_def setSequence_def probe_ok_def copy_metadata_def new_SequenceCache_def)

lemma abc_eq:
  "abc = fresh\<lparr>sequence := sequence abc\<rparr>"
  by (simp add: abc_def fresh_def setSequence_def probe_ok_def copy_metadata_def new_SequenceCache_def)

lemma getFrame_abc: "getFrame abc ''a'' = 0" "getFrame abc ''b'' = 1" "getFrame abc ''c'' = 2"
   "getFrame abc ''d'' = -1"
  by (simp_all add: getFrame_def sequence_abc)

lemma abc_fields:
  "cache abc = []" "extentPrefetch abc = 30" "extentSafe abc = 20" "regionPrefetch abc = (0, 0)"
  "regionSafe abc = (0, 0)" "loading abc = False" "started abc = []" "requestHandled abc = 0"
  "nextRegionPrefetch abc = (0, 0)" "nextRegionSafe abc = (0, 0)"
  by (subst abc_eq, simp add: fresh_def new_SequenceCache_def)+

lemma abc_loading_eq:
  "abc_loading = abc\<lparr>loading := True, nextRegionPrefetch := (0, 2), nextRegionSafe := (0, 2),
      started := [[sequence abc ! 0, sequence abc ! 1]]\<rparr>"
  by (simp add: abc_loading_def request_def getFrame_abc abc_fields start_prefetch_def
      getRegion_eval vector_range_def sequence_abc Let_def)

lemma finish_abc_loading:
  "finish_load cache_get abc_loading =
     abc_loading\<lparr>cache := [(''a'', 1), (''b'', 1)], loading := False, regionPrefetch := (0, 2),
       regionSafe := (0, 2), requestHandled := 1\<rparr>"
  by (simp add: finish_load_def abc_loading_eq sequence_abc cache_get_def abc_fields onResultReady_def)

section \<open>The claims\<close>

text \<open>
  C1. The batch of a load is built by lines 96-98 from the half-open iterator range
  \<open>[first, second)\<close> of the pending prefetch region: it holds the frames \<open>first\<close> to
  \<open>second - 1\<close> (\<open>request_batch_frames\<close>), one fewer than the window
  (\<open>request_batch_length\<close>), and the frame at the upper end of the window is not
  loaded. For 100 frames and the request of frame 50 the window is \<open>(20, 80)\<close> and the
  batch has 60 descriptors (\<open>getRegion_scenario\<close>). In the state \<open>abc\<close> the request of
  b computes the window \<open>(0, 2)\<close> and starts the batch of a and b; when that load has
  finished, frame 2 lies in the prefetch region, and its path c is not in the cache.
\<close>

theorem request_batch_omits_window_end:
  "nextRegionPrefetch abc_loading = (0, 2)
   \<and> map (map path) (started abc_loading) = [[''a'', ''b'']]
   \<and> regionPrefetch (finish_load cache_get abc_loading) = (0, 2)
   \<and> in_region 2 (regionPrefetch (finish_load cache_get abc_loading))
   \<and> path (sequence (finish_load cache_get abc_loading) ! 2) = ''c''
   \<and> \<not> cache_contains (cache (finish_load cache_get abc_loading)) ''c'' 1
   \<and> getCachedFrames cache_contains (finish_load cache_get abc_loading) = [0, 1]"
  by (simp only: finish_abc_loading)
     (simp add: abc_loading_eq sequence_abc in_region_def cache_contains_def getCachedFrames_def)

text \<open>
  C2. After construction the object is not loading, and both regions are the pair
  \<open>(0, 0)\<close>: read as closed intervals, as \<open>request\<close> reads them, they contain the
  frame 0. So the first request of frame 0, on an empty cache, starts no load and reads
  the frame through the cache.
\<close>

theorem new_SequenceCache_regions_hold_frame_0:
  "\<not> loading (new_SequenceCache c)
   \<and> region_set (regionPrefetch (new_SequenceCache c)) = {0}
   \<and> region_set (regionSafe (new_SequenceCache c)) = {0}
   \<and> cache abc = []
   \<and> fst (request cache_get ''a'' abc)
        = Inr \<lparr>img = Some (''a'', 1), resp_dim = (640, 480), resp_metadata = Map.empty\<rparr>
   \<and> started (snd (request cache_get ''a'' abc)) = []
   \<and> \<not> loading (snd (request cache_get ''a'' abc))"
  by (simp add: new_SequenceCache_def region_set_def request_def getFrame_abc abc_fields
      sequence_abc cache_get_def Let_def)

text \<open>
  C3. The claim fails for an extent whose double does not fit the type \<open>int\<close>: in a
  sequence of 3 frames, \<open>getRegion\<close> of frame 1 and the extent \<open>2 ^ 30\<close> takes the
  branch of line 153, where \<open>2 * extent\<close> wraps to \<open>- 2 ^ 31\<close>; the result
  \<open>(0, - 2 ^ 31)\<close> has not the claimed width and contains no frame.
\<close>

theorem getRegion_width_counterexample:
  "(0::int) \<le> 1 \<and> (1::int) < int (length (sequence abc)) \<and> (0::int) \<le> 1073741824
   \<and> getRegion abc 1 1073741824 = (0, - 2147483648)
   \<and> snd (getRegion abc 1 1073741824) - fst (getRegion abc 1 1073741824) + 1
         \<noteq> min (2 * 1073741824 + 1) (int (length (sequence abc)))
   \<and> 1 \<notin> region_set (getRegion abc 1 1073741824)"
proof -
  have "getRegion abc 1 1073741824 = (0, - 2147483648)"
    by (simp add: getRegion_eval sequence_abc)
  then show ?thesis by (simp add: sequence_abc region_set_def)
qed

text \<open>
  C3, as amended. For every frame of a sequence of \<open>N \<ge> 1\<close> frames and every extent
  that is not negative and satisfies \<open>N + 2 * extent < 2 ^ 31\<close>, so that no operation
  leaves the range of \<open>int\<close>, \<open>getRegion\<close> returns a closed interval of exactly
  \<open>min (2 * extent + 1) N\<close> frames that lies within \<open>[0, N - 1]\<close> and contains the
  frame.
\<close>

theorem getRegion_width_inside_contains:
  assumes "0 \<le> frame" and "frame < int (length (sequence s))" and "0 \<le> extent"
    and "int (length (sequence s)) + 2 * extent < 2 ^ 31"
  shows "snd (getRegion s frame extent) - fst (getRegion s frame extent) + 1
           = min (2 * extent + 1) (int (length (sequence s)))
         \<and> region_set (getRegion s frame extent) \<subseteq> {0 .. int (length (sequence s)) - 1}
         \<and> frame \<in> region_set (getRegion s frame extent)"
  using getRegion_width [OF assms] getRegion_inside [OF assms]
  by (simp add: region_set_def)

theorem getRegion_width_inside_contains_witness:
  "(0::int) \<le> 1 \<and> (1::int) < int (length (sequence abc)) \<and> (0::int) \<le> 30
   \<and> int (length (sequence abc)) + 2 * 30 < 2 ^ 31
   \<and> getRegion abc 1 30 = (0, 2)
   \<and> snd (getRegion abc 1 30) - fst (getRegion abc 1 30) + 1
         = min (2 * 30 + 1) (int (length (sequence abc)))
   \<and> region_set (getRegion abc 1 30) \<subseteq> {0 .. int (length (sequence abc)) - 1}
   \<and> 1 \<in> region_set (getRegion abc 1 30)"
proof -
  have h1: "(0::int) \<le> 1" by simp
  have h2: "(1::int) < int (length (sequence abc))" by (simp add: sequence_abc)
  have h3: "(0::int) \<le> 30" by simp
  have h4: "int (length (sequence abc)) + 2 * 30 < 2 ^ 31" by (simp add: sequence_abc)
  have "getRegion abc 1 30 = (0, 2)"
    by (simp add: getRegion_eval sequence_abc)
  with h1 h2 h3 h4 getRegion_width_inside_contains [OF h1 h2 h3 h4] show ?thesis by simp
qed

text \<open>
  C4. For a list of \<open>N\<close> distinct paths, each of which the probe can read,
  \<open>setSequence\<close> returns normally with a sequence of \<open>N\<close> descriptors that carries
  exactly the given paths in strictly ascending order; \<open>getFrame\<close> is the inverse of the
  lookup by index, \<open>getFrame (path (sequence ! i)) = i\<close> for every \<open>i < N\<close>, and it maps
  the paths onto the indices \<open>0, \<dots>, N - 1\<close>.
\<close>

theorem setSequence_sorted_dense_inverse:
  assumes "distinct paths" and "\<forall>p \<in> set paths. \<not> isl (probe p)"
  shows "fst (setSequence probe paths s) = None
         \<and> length (sequence (snd (setSequence probe paths s))) = length paths
         \<and> set (map path (sequence (snd (setSequence probe paths s)))) = set paths
         \<and> sorted_wrt (<) (map path (sequence (snd (setSequence probe paths s))))
         \<and> (\<forall>i < length paths.
               getFrame (snd (setSequence probe paths s))
                 (path (sequence (snd (setSequence probe paths s)) ! i)) = int i)
         \<and> getFrame (snd (setSequence probe paths s)) ` set paths = {0 ..< int (length paths)}"
proof -
  let ?s = "snd (setSequence probe paths s)"
  note facts = setSequence_sorted_index [OF assms, of s]
  from facts(5) facts(2) have "\<forall>i < length (sequence ?s). getFrame ?s (path (sequence ?s ! i)) = int i"
    by simp
  from getFrame_image [OF this refl] facts(2,4)
  have "getFrame ?s ` set paths = {0 ..< int (length paths)}" by simp
  with facts show ?thesis by simp
qed

theorem setSequence_sorted_dense_inverse_witness:
  "distinct [''c'', ''a'', ''b'']
   \<and> \<not> isl (probe_ok ''c'') \<and> \<not> isl (probe_ok ''a'') \<and> \<not> isl (probe_ok ''b'')
   \<and> fst (setSequence probe_ok [''c'', ''a'', ''b''] fresh) = None
   \<and> length (sequence abc) = 3
   \<and> map path (sequence abc) = [''a'', ''b'', ''c'']
   \<and> sorted_wrt (<) (map path (sequence abc))
   \<and> getFrame abc (path (sequence abc ! 0)) = 0
   \<and> getFrame abc (path (sequence abc ! 1)) = 1
   \<and> getFrame abc (path (sequence abc ! 2)) = 2
   \<and> getFrame abc ` set [''c'', ''a'', ''b''] = {0 ..< 3}"
proof -
  have h1: "distinct [''c'', ''a'', ''b'']" by simp
  have h2: "\<forall>p \<in> set [''c'', ''a'', ''b'']. \<not> isl (probe_ok p)" by (simp add: probe_ok_def)
  have m: "map path (sequence abc) = [''a'', ''b'', ''c'']" by (simp add: sequence_abc)
  note c = setSequence_sorted_dense_inverse [OF h1 h2, of fresh, folded abc_def]
  from c have inv: "\<forall>i < length [''c'', ''a'', ''b'']. getFrame abc (path (sequence abc ! i)) = int i"
    by blast
  have "getFrame abc (path (sequence abc ! 0)) = 0"
    and "getFrame abc (path (sequence abc ! 1)) = 1"
    and "getFrame abc (path (sequence abc ! 2)) = 2"
    using inv [rule_format, of 0] inv [rule_format, of 1] inv [rule_format, of 2] by simp_all
  moreover from c have "sorted_wrt (<) (map path (sequence abc))" by blast
  moreover from c have "getFrame abc ` set [''c'', ''a'', ''b''] = {0 ..< 3}" by simp
  moreover from c have "fst (setSequence probe_ok [''c'', ''a'', ''b''] fresh) = None" by blast
  moreover from c have "length (sequence abc) = 3" by simp
  ultimately show ?thesis using h1 h2 m by simp
qed

text \<open>
  C5. While the object is loading, no run of calls of \<open>request\<close>, for whatever paths,
  hands a further batch to the thread pool: the list of the started batches stays as it
  is, and the object stays loading until \<open>onResultReady\<close>.
\<close>

theorem request_single_flight:
  assumes "loading s"
  shows "loading (requests get ps s) \<and> started (requests get ps s) = started s"
proof -
  from assms obtain c where "requests get ps s = s\<lparr>cache := c\<rparr>"
    using requests_while_loading by blast
  with assms show ?thesis by simp
qed

theorem request_single_flight_witness:
  "loading abc_loading
   \<and> loading (requests cache_get [''c'', ''a'', ''c''] abc_loading)
   \<and> started (requests cache_get [''c'', ''a'', ''c''] abc_loading) = started abc_loading
   \<and> length (started abc_loading) = 1"
proof -
  have h: "loading abc_loading" by (simp add: abc_loading_eq)
  have "length (started abc_loading) = 1" by (simp add: abc_loading_eq)
  with h request_single_flight [OF h, of cache_get "[''c'', ''a'', ''c'']"] show ?thesis by simp
qed

text \<open>
  C6. Let a call of \<open>request\<close> start a load (its path is a frame outside the safe
  region and the object is not loading), and let any calls of \<open>request\<close> follow. When
  \<open>onResultReady\<close> then runs, the prefetch region and the safe region are the windows
  that \<open>getRegion\<close> gave at the starting call for the two extents, the object is no
  longer loading, and \<open>requestHandled\<close> has been emitted once.
\<close>

theorem onResultReady_activates_pending:
  assumes "0 \<le> getFrame s p"
    and "getFrame s p < fst (regionSafe s) \<or> getFrame s p > snd (regionSafe s)"
    and "\<not> loading s"
  shows "loading (snd (request get p s))
         \<and> regionPrefetch (onResultReady (requests get ps (snd (request get p s))))
              = getRegion s (getFrame s p) (extentPrefetch s)
         \<and> regionSafe (onResultReady (requests get ps (snd (request get p s))))
              = getRegion s (getFrame s p) (extentSafe s)
         \<and> \<not> loading (onResultReady (requests get ps (snd (request get p s))))
         \<and> requestHandled (onResultReady (requests get ps (snd (request get p s))))
              = requestHandled s + 1"
proof -
  let ?s1 = "snd (request get p s)"
  from request_trigger [OF assms]
  obtain c where s1: "?s1 = (start_prefetch (getFrame s p) s)\<lparr>cache := c\<rparr>" by blast
  then have l: "loading ?s1" by (simp add: start_prefetch_def Let_def)
  then obtain c' where "requests get ps ?s1 = ?s1\<lparr>cache := c'\<rparr>"
    using requests_while_loading by blast
  with s1 l show ?thesis
    by (simp add: onResultReady_def start_prefetch_def Let_def)
qed

theorem onResultReady_activates_pending_witness:
  "0 \<le> getFrame abc ''b''
   \<and> (getFrame abc ''b'' < fst (regionSafe abc) \<or> getFrame abc ''b'' > snd (regionSafe abc))
   \<and> \<not> loading abc
   \<and> regionPrefetch (onResultReady (requests cache_get [''c''] (snd (request cache_get ''b'' abc))))
        = getRegion abc (getFrame abc ''b'') (extentPrefetch abc)
   \<and> getRegion abc (getFrame abc ''b'') (extentPrefetch abc) = (0, 2)
   \<and> requestHandled (onResultReady (requests cache_get [''c''] (snd (request cache_get ''b'' abc)))) = 1"
proof -
  have h1: "0 \<le> getFrame abc ''b''" by (simp add: getFrame_abc)
  have h2: "getFrame abc ''b'' < fst (regionSafe abc) \<or> getFrame abc ''b'' > snd (regionSafe abc)"
    by (simp add: getFrame_abc abc_fields)
  have h3: "\<not> loading abc" by (simp add: abc_fields)
  have "getRegion abc (getFrame abc ''b'') (extentPrefetch abc) = (0, 2)"
    by (simp add: getRegion_eval getFrame_abc abc_fields sequence_abc)
  with h1 h2 h3 onResultReady_activates_pending [OF h1 h2 h3, of cache_get "[''c'']"]
  show ?thesis by (simp add: abc_fields)
qed

text \<open>
  C7. For a path that no descriptor of the sequence carries, \<open>request\<close> returns the
  empty response and leaves the whole state as it was: the loading flag, the four
  regions, the cache and the list of the started batches.
\<close>

theorem request_unknown_path:
  assumes "p \<notin> path ` set (sequence s)"
  shows "request get p s = (Inr emptyResponse, s)"
proof -
  from assms have "getFrame s p = -1"
    by (simp add: getFrame_def getFrame_loop_absent)
  then show ?thesis by (simp add: request_unknown)
qed

theorem request_unknown_path_witness:
  "''d'' \<notin> path ` set (sequence abc)
   \<and> request cache_get ''d'' abc = (Inr emptyResponse, abc)"
proof -
  have h: "''d'' \<notin> path ` set (sequence abc)" by (simp add: sequence_abc)
  with request_unknown_path [OF h, of cache_get] show ?thesis by simp
qed

text \<open>
  C8. If the probe fails for one of the paths, \<open>setSequence\<close> does not return normally:
  the exception of the probe leaves it. No descriptor is built for the path that failed
  or for a later one: the index then holds the descriptors of the paths before the
  first failure, in the order given, and each of them carries the dimensions and the
  metadata that the probe returned for its path.
\<close>

theorem setSequence_probe_failure:
  assumes "\<exists>p \<in> set paths. isl (probe p)"
  shows "fst (setSequence probe paths s) \<noteq> None
         \<and> map path (sequence (snd (setSequence probe paths s)))
             = takeWhile (\<lambda>p. \<not> isl (probe p)) paths
         \<and> (\<forall>d \<in> set (sequence (snd (setSequence probe paths s))). probed probe d)"
proof -
  from assms have f: "fst (setSequence_loop probe paths []) \<noteq> None"
    by (simp add: setSequence_loop_result)
  then have seq: "sequence (snd (setSequence probe paths s)) = snd (setSequence_loop probe paths [])"
    by (auto simp: sequence_setSequence)
  have "\<forall>d \<in> set (snd (setSequence_loop probe paths [])). probed probe d"
    by (rule setSequence_loop_probed) simp
  with f seq setSequence_loop_paths [of probe paths "[]"] show ?thesis
    by (simp add: fst_setSequence)
qed

theorem setSequence_probe_failure_witness:
  "(\<exists>p \<in> set [''c'', ''a'', ''b'']. isl (probe_b_fails p))
   \<and> fst (setSequence probe_b_fails [''c'', ''a'', ''b''] fresh) = Some (Exception ''cannot open'')
   \<and> map path (sequence (snd (setSequence probe_b_fails [''c'', ''a'', ''b''] fresh))) = [''c'', ''a'']
   \<and> probed probe_b_fails (sequence (snd (setSequence probe_b_fails [''c'', ''a'', ''b''] fresh)) ! 0)
   \<and> probed probe_b_fails (sequence (snd (setSequence probe_b_fails [''c'', ''a'', ''b''] fresh)) ! 1)"
proof -
  let ?s = "snd (setSequence probe_b_fails [''c'', ''a'', ''b''] fresh)"
  have h: "\<exists>p \<in> set [''c'', ''a'', ''b'']. isl (probe_b_fails p)"
    by (simp add: probe_b_fails_def)
  note c = setSequence_probe_failure [OF h, of fresh]
  have e: "fst (setSequence probe_b_fails [''c'', ''a'', ''b''] fresh) = Some (Exception ''cannot open'')"
    by (simp add: setSequence_def probe_b_fails_def)
  from c have "map path (sequence ?s)
      = takeWhile (\<lambda>p. \<not> isl (probe_b_fails p)) [''c'', ''a'', ''b'']"
    by blast
  then have m: "map path (sequence ?s) = [''c'', ''a'']"
    by (simp add: probe_b_fails_def)
  then have "length (sequence ?s) = 2" by (metis length_map length_Cons list.size(3) numeral_2_eq_2)
  then have "sequence ?s ! 0 \<in> set (sequence ?s)" and "sequence ?s ! 1 \<in> set (sequence ?s)"
    by simp_all
  with c have "probed probe_b_fails (sequence ?s ! 0)" and "probed probe_b_fails (sequence ?s ! 1)"
    by blast+
  with h e m show ?thesis by simp
qed

text \<open>
  C9. The claim fails outside the extents that the type \<open>int\<close> can double. In a
  sequence of 3 frames and at frame 1, the window of the extent 20 is \<open>(0, 2)\<close>, and
  the window of the larger extent \<open>2 ^ 30\<close> is \<open>(0, - 2 ^ 31)\<close>, which is empty. For a
  negative extent the claim fails too: the window of \<open>- 2 ^ 31\<close> is \<open>(0, 0)\<close>, and the
  window of the larger extent 0 is \<open>(1, 1)\<close>.
\<close>

theorem getRegion_monotone_counterexample:
  "(0::int) \<le> 1 \<and> (1::int) < int (length (sequence abc))
   \<and> (20::int) \<le> 1073741824
   \<and> getRegion abc 1 20 = (0, 2) \<and> getRegion abc 1 1073741824 = (0, - 2147483648)
   \<and> \<not> region_set (getRegion abc 1 20) \<subseteq> region_set (getRegion abc 1 1073741824)
   \<and> (- 2147483648::int) \<le> 0
   \<and> getRegion abc 1 (- 2147483648) = (0, 0) \<and> getRegion abc 1 0 = (1, 1)
   \<and> \<not> region_set (getRegion abc 1 (- 2147483648)) \<subseteq> region_set (getRegion abc 1 0)"
proof -
  have "getRegion abc 1 20 = (0, 2)" and "getRegion abc 1 1073741824 = (0, - 2147483648)"
    and "getRegion abc 1 (- 2147483648) = (0, 0)" and "getRegion abc 1 0 = (1, 1)"
    by (simp_all add: getRegion_eval sequence_abc)
  then show ?thesis by (simp add: sequence_abc region_set_def)
qed

text \<open>
  C9, as amended. \<open>getRegion\<close> is monotone in the extent where no operation leaves the
  range of \<open>int\<close>: for a frame of a sequence of \<open>N\<close> frames and extents \<open>e1 \<le> e2\<close>
  with \<open>N + 2 * \<bar>e1\<bar> < 2 ^ 31\<close> and \<open>N + 2 * \<bar>e2\<bar> < 2 ^ 31\<close>, the window of \<open>e1\<close>
  lies within the window of \<open>e2\<close>. Hence, when a request starts a load in a state whose
  extents satisfy \<open>extentSafe \<le> extentPrefetch\<close> and these two bounds, the pending safe
  region lies within the pending prefetch region. The constructor sets the extents to
  20 and 30, and no method changes them (\<open>request_keeps_extents\<close>).
\<close>

theorem getRegion_monotone_in_extent:
  assumes "0 \<le> frame" and "frame < int (length (sequence s))" and "e1 \<le> e2"
    and "int (length (sequence s)) + 2 * \<bar>e1\<bar> < 2 ^ 31"
    and "int (length (sequence s)) + 2 * \<bar>e2\<bar> < 2 ^ 31"
  shows "region_set (getRegion s frame e1) \<subseteq> region_set (getRegion s frame e2)
         \<and> (getFrame s p = frame
              \<and> (frame < fst (regionSafe s) \<or> frame > snd (regionSafe s)) \<and> \<not> loading s
              \<and> extentSafe s \<le> extentPrefetch s
              \<and> int (length (sequence s)) + 2 * \<bar>extentSafe s\<bar> < 2 ^ 31
              \<and> int (length (sequence s)) + 2 * \<bar>extentPrefetch s\<bar> < 2 ^ 31 \<longrightarrow>
              region_set (nextRegionSafe (snd (request get p s)))
                \<subseteq> region_set (nextRegionPrefetch (snd (request get p s))))"
  using getRegion_mono [OF assms] request_nested [of s p get] assms(1) by blast

theorem getRegion_monotone_in_extent_witness:
  "(0::int) \<le> 1 \<and> (1::int) < int (length (sequence abc_narrow))
   \<and> (0::int) \<le> 1
   \<and> int (length (sequence abc_narrow)) + 2 * \<bar>0\<bar> < 2 ^ 31
   \<and> int (length (sequence abc_narrow)) + 2 * \<bar>1\<bar> < 2 ^ 31
   \<and> getFrame abc_narrow ''b'' = 1
   \<and> ((1::int) < fst (regionSafe abc_narrow) \<or> 1 > snd (regionSafe abc_narrow))
   \<and> \<not> loading abc_narrow
   \<and> extentSafe abc_narrow \<le> extentPrefetch abc_narrow
   \<and> int (length (sequence abc_narrow)) + 2 * \<bar>extentSafe abc_narrow\<bar> < 2 ^ 31
   \<and> int (length (sequence abc_narrow)) + 2 * \<bar>extentPrefetch abc_narrow\<bar> < 2 ^ 31
   \<and> getRegion abc_narrow 1 0 = (1, 1) \<and> getRegion abc_narrow 1 1 = (0, 2)
   \<and> region_set (getRegion abc_narrow 1 0) \<subseteq> region_set (getRegion abc_narrow 1 1)
   \<and> region_set (nextRegionSafe (snd (request cache_get ''b'' abc_narrow)))
         \<subseteq> region_set (nextRegionPrefetch (snd (request cache_get ''b'' abc_narrow)))"
proof -
  have h1: "(0::int) \<le> 1" by simp
  have h2: "(1::int) < int (length (sequence abc_narrow))"
    by (simp add: abc_narrow_def sequence_abc)
  have h3: "(0::int) \<le> 1" by simp
  have h4: "int (length (sequence abc_narrow)) + 2 * \<bar>0\<bar> < 2 ^ 31"
    by (simp add: abc_narrow_def sequence_abc)
  have h5: "int (length (sequence abc_narrow)) + 2 * \<bar>1\<bar> < 2 ^ 31"
    by (simp add: abc_narrow_def sequence_abc)
  have f: "getFrame abc_narrow ''b'' = 1"
    by (simp add: abc_narrow_def getFrame_def sequence_abc)
  have g: "((1::int) < fst (regionSafe abc_narrow) \<or> 1 > snd (regionSafe abc_narrow))
      \<and> \<not> loading abc_narrow
      \<and> extentSafe abc_narrow \<le> extentPrefetch abc_narrow
      \<and> int (length (sequence abc_narrow)) + 2 * \<bar>extentSafe abc_narrow\<bar> < 2 ^ 31
      \<and> int (length (sequence abc_narrow)) + 2 * \<bar>extentPrefetch abc_narrow\<bar> < 2 ^ 31"
    by (simp add: abc_narrow_def abc_fields sequence_abc)
  have r: "getRegion abc_narrow 1 0 = (1, 1) \<and> getRegion abc_narrow 1 1 = (0, 2)"
    by (simp add: getRegion_eval abc_narrow_def sequence_abc)
  from getRegion_monotone_in_extent [OF h1 h2 h3 h4 h5, of "''b''" cache_get] f g r h2 h4 h5
  show ?thesis by simp
qed

text \<open>
  C10. \<open>setSequence\<close> replaces the list of descriptors and nothing else: the safe and
  prefetch regions, the two pending regions, the loading flag, the cache, the extents
  and the record of the started batches and emitted signals are what they were before
  the call, whether it returns or throws. Regions computed for the previous sequence
  therefore stay in force for the new one.
\<close>

theorem setSequence_keeps_regions:
  "regionSafe (snd (setSequence probe paths s)) = regionSafe s
   \<and> regionPrefetch (snd (setSequence probe paths s)) = regionPrefetch s
   \<and> nextRegionSafe (snd (setSequence probe paths s)) = nextRegionSafe s
   \<and> nextRegionPrefetch (snd (setSequence probe paths s)) = nextRegionPrefetch s
   \<and> loading (snd (setSequence probe paths s)) = loading s
   \<and> cache (snd (setSequence probe paths s)) = cache s
   \<and> extentSafe (snd (setSequence probe paths s)) = extentSafe s
   \<and> extentPrefetch (snd (setSequence probe paths s)) = extentPrefetch s
   \<and> started (snd (setSequence probe paths s)) = started s
   \<and> requestHandled (snd (setSequence probe paths s)) = requestHandled s"
  by (subst setSequence_only_sequence, simp)+

end
